theory Spec2Isabelle
  imports Main "HOL-Library.Word"
begin

unbundle bit_operations_syntax

section \<open>Data model\<close>

text \<open>
  \<^verbatim>\<open>byte\<close> and \<^verbatim>\<open>uint8_t\<close> are unsigned 8-bit values; \<^verbatim>\<open>int8_t\<close> is the same
  8 bits read in two's complement (\<open>sint\<close>), compared with the signed orders
  \<open>word_sle\<close> and \<open>word_sless\<close>. Arithmetic on an \<^verbatim>\<open>int8_t\<close> variable is done in
  \<^verbatim>\<open>int\<close> and converted back on assignment. The conversion of a value that does not
  fit is implementation-defined; the compilers this library is built with (avr-gcc) keep
  the low 8 bits, and so does the model: that is the wrapping \<open>+\<close> and \<open>-\<close> of \<open>8 word\<close>.
\<close>

type_synonym byte = "8 word"
type_synonym int8 = "8 word"
type_synonym pin = "8 word"

text \<open>
  The class \<^verbatim>\<open>SanyoCCB\<close>: four pin numbers, set once by the constructor from its
  \<^verbatim>\<open>uint8_t\<close> arguments (the fields are declared \<^verbatim>\<open>int\<close> and only ever hold
  those values).
\<close>

record SanyoCCB =
  do_pin :: pin
  cl_pin :: pin
  di_pin :: pin
  ce_pin :: pin

definition SanyoCCB_new :: "pin \<Rightarrow> pin \<Rightarrow> pin \<Rightarrow> pin \<Rightarrow> SanyoCCB" where
  "SanyoCCB_new dop clp dip cep =
     \<lparr>do_pin = dop, cl_pin = clp, di_pin = dip, ce_pin = cep\<rparr>"

definition CCB_SEND :: byte where
  "CCB_SEND = 0"

definition CCB_RECEIVE :: byte where
  "CCB_RECEIVE = 1"

definition CCB_DELAY :: nat where
  "CCB_DELAY = 100"

section \<open>The platform layer\<close>

text \<open>
  Modelled from the spec: the GPIO and delay primitives of the Arduino core
  (\<^verbatim>\<open>pinMode\<close>, \<^verbatim>\<open>digitalWrite\<close>, \<^verbatim>\<open>digitalRead\<close>, \<^verbatim>\<open>delayMicroseconds\<close>, and the
  macros \<^verbatim>\<open>bitRead\<close>, \<^verbatim>\<open>bitWrite\<close>, \<^verbatim>\<open>HIGH\<close>, \<^verbatim>\<open>LOW\<close>) are external collaborators
  (spec section 6): configure a line, drive a line to a level, sample a line, block for a
  number of microseconds. Each call is recorded, in order, in a trace. What a sample of a
  line returns is decided by the environment: \<open>din s k\<close> is the level that the \<open>k\<close>-th
  \<^verbatim>\<open>digitalRead\<close> since the start returns, and \<open>nreads s\<close> counts the samples taken so far.
\<close>

datatype pin_mode = INPUT | OUTPUT

datatype event =
    PinMode pin pin_mode
  | DigitalWrite pin bool
  | DigitalRead pin bool
  | DelayMicroseconds nat

record world =
  trace :: "event list"
  din :: "nat \<Rightarrow> bool"
  nreads :: nat

abbreviation HIGH :: bool where
  "HIGH \<equiv> True"

abbreviation LOW :: bool where
  "LOW \<equiv> False"

definition pinMode :: "pin \<Rightarrow> pin_mode \<Rightarrow> world \<Rightarrow> world" where
  "pinMode p m s = s\<lparr>trace := trace s @ [PinMode p m]\<rparr>"

definition digitalWrite :: "pin \<Rightarrow> bool \<Rightarrow> world \<Rightarrow> world" where
  "digitalWrite p v s = s\<lparr>trace := trace s @ [DigitalWrite p v]\<rparr>"

definition delayMicroseconds :: "nat \<Rightarrow> world \<Rightarrow> world" where
  "delayMicroseconds us s = s\<lparr>trace := trace s @ [DelayMicroseconds us]\<rparr>"

definition digitalRead :: "pin \<Rightarrow> world \<Rightarrow> bool \<times> world" where
  "digitalRead p s =
     (let v = din s (nreads s)
      in (v, s\<lparr>trace := trace s @ [DigitalRead p v], nreads := Suc (nreads s)\<rparr>))"

text \<open>\<^verbatim>\<open>bitRead(value, bit)\<close> is \<^verbatim>\<open>((value >> bit) & 0x01)\<close>, used as a level.\<close>

definition bitRead :: "byte \<Rightarrow> int8 \<Rightarrow> bool" where
  "bitRead v b = (drop_bit (nat (sint b)) v AND 1 \<noteq> 0)"

text \<open>\<^verbatim>\<open>bitWrite(value, bit, x)\<close> is \<^verbatim>\<open>(x ? bitSet(value, bit) : bitClear(value, bit))\<close>.\<close>

definition bitWrite :: "byte \<Rightarrow> int8 \<Rightarrow> bool \<Rightarrow> byte" where
  "bitWrite v b x =
     (if x then v OR push_bit (nat (sint b)) 1 else v AND NOT (push_bit (nat (sint b)) 1))"

text \<open>
  The level of the output latch of line \<open>p\<close> after the events \<open>es\<close>, when it was \<open>v\<close>
  before them: the last level written to \<open>p\<close>.
\<close>

fun line_level :: "pin \<Rightarrow> bool \<Rightarrow> event list \<Rightarrow> bool" where
  "line_level p v [] = v"
| "line_level p v (DigitalWrite q x # es) = line_level p (if q = p then x else v) es"
| "line_level p v (PinMode q m # es) = line_level p v es"
| "line_level p v (DigitalRead q x # es) = line_level p v es"
| "line_level p v (DelayMicroseconds us # es) = line_level p v es"

text \<open>The level of line \<open>p\<close> after each of the events \<open>es\<close> in turn.\<close>

fun level_history :: "pin \<Rightarrow> bool \<Rightarrow> event list \<Rightarrow> bool list" where
  "level_history p v [] = []"
| "level_history p v (e # es) = line_level p v [e] # level_history p (line_level p v [e]) es"

fun writes_pin :: "pin \<Rightarrow> event \<Rightarrow> bool" where
  "writes_pin p (DigitalWrite q x) = (q = p)"
| "writes_pin p (PinMode q m) = False"
| "writes_pin p (DigitalRead q x) = False"
| "writes_pin p (DelayMicroseconds us) = False"

text \<open>
  The configuration of line \<open>p\<close> after the events \<open>es\<close>: the last mode set for it, if any.
\<close>

fun line_mode :: "pin \<Rightarrow> pin_mode option \<Rightarrow> event list \<Rightarrow> pin_mode option" where
  "line_mode p m [] = m"
| "line_mode p m (PinMode q m' # es) = line_mode p (if q = p then Some m' else m) es"
| "line_mode p m (DigitalWrite q x # es) = line_mode p m es"
| "line_mode p m (DigitalRead q x # es) = line_mode p m es"
| "line_mode p m (DelayMicroseconds us # es) = line_mode p m es"

section \<open>The driver\<close>

subsection \<open>\<^verbatim>\<open>init\<close>\<close>

definition init :: "SanyoCCB \<Rightarrow> world \<Rightarrow> world" where
  "init c s =
     (let s = pinMode (do_pin c) OUTPUT s;
          s = pinMode (cl_pin c) OUTPUT s;
          s = pinMode (ce_pin c) OUTPUT s;
          s = pinMode (di_pin c) INPUT s;
          s = digitalWrite (di_pin c) HIGH s;
          s = digitalWrite (do_pin c) LOW s;
          s = digitalWrite (cl_pin c) LOW s;
          s = digitalWrite (ce_pin c) HIGH s;
          s = delayMicroseconds CCB_DELAY s;
          s = digitalWrite (ce_pin c) LOW s;
          s = delayMicroseconds CCB_DELAY s
      in s)"

subsection \<open>\<^verbatim>\<open>writeByte\<close>\<close>

text \<open>The loop \<^verbatim>\<open>for(int8_t i = 0; i <= 7; i++)\<close>, entered with counter \<open>i\<close>.\<close>

function writeByte_loop :: "SanyoCCB \<Rightarrow> byte \<Rightarrow> int8 \<Rightarrow> world \<Rightarrow> world" where
  "writeByte_loop c data i s =
     (if word_sle i 7 then
        (let s = digitalWrite (do_pin c) (bitRead data i) s;
             s = digitalWrite (cl_pin c) HIGH s;
             s = delayMicroseconds CCB_DELAY s;
             s = digitalWrite (cl_pin c) LOW s;
             s = delayMicroseconds CCB_DELAY s
         in writeByte_loop c data (i + 1) s)
      else s)"
  by pat_completeness auto
termination
proof (relation "measure (\<lambda>(c, data, i, s). nat (8 - sint i))")
  show "wf (measure (\<lambda>(c, data, i, s). nat (8 - sint i)))"
    by simp
next
  fix c :: SanyoCCB and data :: byte and i :: int8 and s x xa xb xc xd :: world
  assume le: "word_sle i 7"
  then have "sint i \<le> 7"
    by (simp add: word_sle_eq)
  moreover have "- 128 \<le> sint i"
    using sint_ge [of i] by simp
  ultimately have "sint (i + 1) = sint i + 1"
    by (simp add: sint_word_ariths signed_take_bit_int_eq_self)
  with \<open>sint i \<le> 7\<close>
  show "((c, data, i + 1, xd), (c, data, i, s)) \<in> measure (\<lambda>(c, data, i, s). nat (8 - sint i))"
    by simp
qed

definition writeByte :: "SanyoCCB \<Rightarrow> byte \<Rightarrow> world \<Rightarrow> world" where
  "writeByte c data s = writeByte_loop c data 0 s"

subsection \<open>\<^verbatim>\<open>readByte\<close>\<close>

text \<open>
  The loop \<^verbatim>\<open>for(int8_t i = 7; i >= 0; i--)\<close>, entered with counter \<open>i\<close> and the bits
  assembled so far in \<open>data\<close>.
\<close>

function readByte_loop :: "SanyoCCB \<Rightarrow> byte \<Rightarrow> int8 \<Rightarrow> world \<Rightarrow> byte \<times> world" where
  "readByte_loop c data i s =
     (if word_sle 0 i then
        (let s = digitalWrite (cl_pin c) HIGH s;
             s = delayMicroseconds CCB_DELAY s;
             (x, s) = digitalRead (di_pin c) s;
             data = bitWrite data i x;
             s = digitalWrite (cl_pin c) LOW s;
             s = delayMicroseconds CCB_DELAY s
         in readByte_loop c data (i - 1) s)
      else (data, s))"
  by pat_completeness auto
termination
proof (relation "measure (\<lambda>(c, data, i, s). nat (sint i + 1))", goal_cases)
  case 1
  show ?case by simp
next
  case (2 c data i s)
  from \<open>word_sle 0 i\<close> have "0 \<le> sint i"
    by (simp add: word_sle_eq)
  then have "sint (i - 1) = sint i - 1"
    using sint_lt [of i] by (simp add: sint_word_ariths signed_take_bit_int_eq_self)
  with \<open>0 \<le> sint i\<close> show ?case
    by simp
qed

definition readByte :: "SanyoCCB \<Rightarrow> world \<Rightarrow> byte \<times> world" where
  "readByte c s = readByte_loop c 0 7 s"

subsection \<open>\<^verbatim>\<open>ccb\<close>\<close>

text \<open>
  The caller's buffer \<^verbatim>\<open>byte *data\<close> is the list of the bytes it owns. Indexing it at
  or beyond its end is undefined behaviour in the source; the model stops there with
  \<open>OutOfBounds\<close>.
\<close>

datatype error = OutOfBounds

text \<open>
  The argument of the first \<^verbatim>\<open>writeByte\<close> call, \<^verbatim>\<open>(address >> 4) | (address << 4)\<close>:
  \<^verbatim>\<open>address\<close> is promoted to \<^verbatim>\<open>int\<close>, shifted and combined there, and the result is
  converted to the \<^verbatim>\<open>byte\<close> parameter, which keeps its low 8 bits.
\<close>

definition swapped_address :: "byte \<Rightarrow> byte" where
  "swapped_address address =
     word_of_int (drop_bit 4 (uint address) OR push_bit 4 (uint address))"

text \<open>
  The loop \<^verbatim>\<open>for(i = dataLength - 1; i >= 0; i--) writeByte(data[i]);\<close>, entered with
  counter \<open>i\<close>. The counter is declared at the top of \<^verbatim>\<open>ccb\<close>, so its last value is
  part of the result.
\<close>

function send_loop :: "SanyoCCB \<Rightarrow> byte list \<Rightarrow> int8 \<Rightarrow> world \<Rightarrow> error + (int8 \<times> world)" where
  "send_loop c data i s =
     (if word_sle 0 i then
        (if nat (sint i) < length data
         then send_loop c data (i - 1) (writeByte c (data ! nat (sint i)) s)
         else Inl OutOfBounds)
      else Inr (i, s))"
  by pat_completeness auto
termination
proof (relation "measure (\<lambda>(c, data, i, s). nat (sint i + 1))", goal_cases)
  case 1
  show ?case by simp
next
  case (2 c data i s)
  from \<open>word_sle 0 i\<close> have "0 \<le> sint i"
    by (simp add: word_sle_eq)
  then have "sint (i - 1) = sint i - 1"
    using sint_lt [of i] by (simp add: sint_word_ariths signed_take_bit_int_eq_self)
  with \<open>0 \<le> sint i\<close> show ?case
    by simp
qed

text \<open>
  The loop \<^verbatim>\<open>for(i = 0; i < dataLength; i++) data[i] = readByte();\<close>, entered with
  counter \<open>i\<close>.
\<close>

function receive_loop ::
  "SanyoCCB \<Rightarrow> int8 \<Rightarrow> byte list \<Rightarrow> int8 \<Rightarrow> world \<Rightarrow> error + (int8 \<times> byte list \<times> world)" where
  "receive_loop c dataLength data i s =
     (if word_sless i dataLength then
        (let (b, s) = readByte c s
         in if 0 \<le> sint i \<and> nat (sint i) < length data
            then receive_loop c dataLength (data[nat (sint i) := b]) (i + 1) s
            else Inl OutOfBounds)
      else Inr (i, data, s))"
  by pat_completeness auto
termination
proof (relation "measure (\<lambda>(c, dataLength, data, i, s). nat (sint dataLength - sint i))",
    goal_cases)
  case 1
  show ?case by simp
next
  case (2 c dataLength data i s x xa y)
  from \<open>word_sless i dataLength\<close> have lt: "sint i < sint dataLength"
    by (simp add: word_sless_alt)
  moreover have "sint dataLength \<le> 127"
    using sint_lt [of dataLength] by simp
  moreover have "- 128 \<le> sint i"
    using sint_ge [of i] by simp
  ultimately have "sint (i + 1) = sint i + 1"
    by (simp add: sint_word_ariths signed_take_bit_int_eq_self)
  with lt show ?case
    by simp
qed

text \<open>
  \<^verbatim>\<open>ccb\<close>: the address byte, the entry into the data phase, the \<^verbatim>\<open>switch\<close> on the mode
  (which has no \<^verbatim>\<open>default\<close>: any other mode transfers nothing), and the exit from the data
  phase. The result is the buffer and the world after the call.
\<close>

definition ccb ::
  "SanyoCCB \<Rightarrow> byte \<Rightarrow> byte list \<Rightarrow> int8 \<Rightarrow> byte \<Rightarrow> world \<Rightarrow> error + (byte list \<times> world)" where
  "ccb c address data dataLength mode s =
     (let s = writeByte c (swapped_address address) s;
          s = digitalWrite (cl_pin c) LOW s;
          s = digitalWrite (ce_pin c) HIGH s;
          s = delayMicroseconds CCB_DELAY s;
          r = (if mode = CCB_SEND then
                 (case send_loop c data (dataLength - 1) s of
                    Inl e \<Rightarrow> Inl e
                  | Inr (i, s) \<Rightarrow> Inr (data, digitalWrite (do_pin c) LOW s))
               else if mode = CCB_RECEIVE then
                 (case receive_loop c dataLength data 0 s of
                    Inl e \<Rightarrow> Inl e
                  | Inr (i, data, s) \<Rightarrow> Inr (data, s))
               else Inr (data, s))
      in case r of
           Inl e \<Rightarrow> Inl e
         | Inr (data, s) \<Rightarrow>
             (let s = digitalWrite (ce_pin c) LOW s;
                  s = delayMicroseconds CCB_DELAY s
              in Inr (data, s)))"

subsection \<open>\<^verbatim>\<open>diPinState\<close>, \<^verbatim>\<open>write\<close>, \<^verbatim>\<open>read\<close>\<close>

definition diPinState :: "SanyoCCB \<Rightarrow> world \<Rightarrow> bool \<times> world" where
  "diPinState c s = digitalRead (di_pin c) s"

definition SanyoCCB_write :: "SanyoCCB \<Rightarrow> byte \<Rightarrow> byte list \<Rightarrow> int8 \<Rightarrow> world \<Rightarrow> error + (byte list \<times> world)" where
  "SanyoCCB_write c address data dataLength s = ccb c address data dataLength CCB_SEND s"

definition SanyoCCB_read :: "SanyoCCB \<Rightarrow> byte \<Rightarrow> byte list \<Rightarrow> int8 \<Rightarrow> world \<Rightarrow> error + (byte list \<times> world)" where
  "SanyoCCB_read c address data dataLength s = ccb c address data dataLength CCB_RECEIVE s"

section \<open>Bus activity, in the words of the specification\<close>

text \<open>
  sendByte: for each of 8 bits (index 0..7 ascending): drive OUT to the bit value, raise
  CLOCK, hold one delay unit, lower CLOCK, hold one delay unit.
\<close>

definition sendByte_events :: "SanyoCCB \<Rightarrow> byte \<Rightarrow> event list" where
  "sendByte_events c b =
     concat (map (\<lambda>i. [DigitalWrite (do_pin c) (bit b i),
                        DigitalWrite (cl_pin c) HIGH, DelayMicroseconds 100,
                        DigitalWrite (cl_pin c) LOW, DelayMicroseconds 100]) [0..<8])"

text \<open>
  receiveByte: for each of 8 bits: raise CLOCK, hold one delay unit, sample IN, lower
  CLOCK, hold one delay unit. The samples are those numbered \<open>k\<close>, ..., \<open>k + 7\<close> of the
  environment \<open>f\<close>.
\<close>

definition receiveByte_events :: "SanyoCCB \<Rightarrow> (nat \<Rightarrow> bool) \<Rightarrow> nat \<Rightarrow> event list" where
  "receiveByte_events c f k =
     concat (map (\<lambda>j. [DigitalWrite (cl_pin c) HIGH, DelayMicroseconds 100,
                        DigitalRead (di_pin c) (f (k + j)),
                        DigitalWrite (cl_pin c) LOW, DelayMicroseconds 100]) [0..<8])"

text \<open>
  The byte assembled most-significant-bit first from the samples \<open>k\<close>, ..., \<open>k + 7\<close>: the
  first sample is bit 7, the last is bit 0, so bit \<open>i\<close> is sample \<open>k + (7 - i)\<close>.
\<close>

definition receiveByte_value :: "(nat \<Rightarrow> bool) \<Rightarrow> nat \<Rightarrow> byte" where
  "receiveByte_value f k = horner_sum of_bool 2 (map (\<lambda>i. f (k + (7 - i))) [0..<8])"

text \<open>
  Transfer: the framed address byte is sent first, with the nibbles of the address
  exchanged.
\<close>

definition address_events :: "SanyoCCB \<Rightarrow> byte \<Rightarrow> event list" where
  "address_events c address = sendByte_events c (swapped_address address)"

text \<open>Entering and leaving the data phase.\<close>

definition enter_events :: "SanyoCCB \<Rightarrow> event list" where
  "enter_events c =
     [DigitalWrite (cl_pin c) LOW, DigitalWrite (ce_pin c) HIGH, DelayMicroseconds 100]"

definition exit_events :: "SanyoCCB \<Rightarrow> event list" where
  "exit_events c = [DigitalWrite (ce_pin c) LOW, DelayMicroseconds 100]"

text \<open>
  The scenario of the specification: \<^verbatim>\<open>construct(2,3,4,5)\<close>, on a bus where nothing has
  happened yet and whose IN line reads low at every sample.
\<close>

definition example_bus :: SanyoCCB where
  "example_bus = SanyoCCB_new 2 3 4 5"

definition quiet_world :: world where
  "quiet_world = \<lparr>trace = [], din = (\<lambda>k. False), nreads = 0\<rparr>"

text \<open>
  What the payload loops may add to the trace: events that write no line other than OUT
  and CLOCK, and that together leave a low CLOCK low.
\<close>

fun payload_event :: "SanyoCCB \<Rightarrow> event \<Rightarrow> bool" where
  "payload_event c (DigitalWrite q x) = (q = do_pin c \<or> q = cl_pin c)"
| "payload_event c (PinMode q m) = True"
| "payload_event c (DigitalRead q x) = True"
| "payload_event c (DelayMicroseconds us) = True"

definition payload_events :: "SanyoCCB \<Rightarrow> event list \<Rightarrow> bool" where
  "payload_events c P \<longleftrightarrow>
     list_all (payload_event c) P \<and> line_level (cl_pin c) LOW P = LOW"

section \<open>Auxiliary facts\<close>

declare writeByte_loop.simps [simp del] readByte_loop.simps [simp del]
  send_loop.simps [simp del] receive_loop.simps [simp del]

lemma upt_0_8: "[0..<8] = [0, 1, 2, 3, 4, 5, 6, 7::nat]"
  by (simp add: upt_rec)

lemma bitRead_bit: "bitRead v b = bit v (nat (sint b))"
  by (simp add: bitRead_def and_one_eq bit_iff_odd_drop_bit odd_iff_mod_2_eq_one)

lemma bitWrite_bit:
  "bit (bitWrite v b x) n = (if n = nat (sint b) then x \<and> n < 8 else bit v n)"
  by (auto simp: bitWrite_def bit_simps dest: bit_imp_le_length)

lemma writeByte_eq: "writeByte c b s = s\<lparr>trace := trace s @ sendByte_events c b\<rparr>"
  by (simp add: writeByte_def writeByte_loop.simps Let_def digitalWrite_def
      delayMicroseconds_def bitRead_bit CCB_DELAY_def sendByte_events_def upt_0_8 word_sle_eq)

lemma add_numeral_Suc:
  "m + 1 = Suc m"
  "m + 2 = Suc (Suc m)"
  "m + 3 = Suc (Suc (Suc m))"
  "m + 4 = Suc (Suc (Suc (Suc m)))"
  "m + 5 = Suc (Suc (Suc (Suc (Suc m))))"
  "m + 6 = Suc (Suc (Suc (Suc (Suc (Suc m)))))"
  "m + 7 = Suc (Suc (Suc (Suc (Suc (Suc (Suc m))))))"
  "m + 8 = Suc (Suc (Suc (Suc (Suc (Suc (Suc (Suc m)))))))"
  by simp_all

lemma less_8_cases: "n < 8 \<Longrightarrow> n \<in> {0, 1, 2, 3, 4, 5, 6, 7::nat}"
  by auto

lemma bit_receiveByte_value: "bit (receiveByte_value f k) n = (n < 8 \<and> f (k + (7 - n)))"
  by (auto simp: receiveByte_value_def bit_horner_sum_bit_iff)

lemma readByte_unrolled:
  "readByte c s =
     (bitWrite (bitWrite (bitWrite (bitWrite (bitWrite (bitWrite (bitWrite (bitWrite 0
        7 (din s (nreads s))) 6 (din s (nreads s + 1))) 5 (din s (nreads s + 2)))
        4 (din s (nreads s + 3))) 3 (din s (nreads s + 4))) 2 (din s (nreads s + 5)))
        1 (din s (nreads s + 6))) 0 (din s (nreads s + 7)),
      s\<lparr>trace := trace s @ receiveByte_events c (din s) (nreads s), nreads := nreads s + 8\<rparr>)"
  by (simp add: readByte_def readByte_loop.simps Let_def digitalWrite_def digitalRead_def
      delayMicroseconds_def CCB_DELAY_def receiveByte_events_def upt_0_8 word_sle_eq
      add_numeral_Suc)


lemma readByte_eq:
  "readByte c s =
     (receiveByte_value (din s) (nreads s),
      s\<lparr>trace := trace s @ receiveByte_events c (din s) (nreads s), nreads := nreads s + 8\<rparr>)"
proof -
  have "fst (readByte c s) = receiveByte_value (din s) (nreads s)"
  proof (rule bit_eqI)
    fix n
    show "bit (fst (readByte c s)) n = bit (receiveByte_value (din s) (nreads s)) n"
    proof (cases "n < 8")
      case True
      then show ?thesis
        using less_8_cases [OF True]
        by (auto simp: readByte_unrolled bitWrite_bit bit_receiveByte_value add.commute)
    next
      case False
      then show ?thesis
        by (simp add: readByte_unrolled bitWrite_bit bit_receiveByte_value)
    qed
  qed
  then show ?thesis
    by (simp add: readByte_unrolled)
qed

lemma sint8_pred: "0 \<le> sint (i :: int8) \<Longrightarrow> sint (i - 1) = sint i - 1"
  using sint_lt [of i] by (simp add: sint_word_ariths signed_take_bit_int_eq_self)

lemma sint8_succ: "sint (i :: int8) < 127 \<Longrightarrow> sint (i + 1) = sint i + 1"
  using sint_ge [of i] by (simp add: sint_word_ariths signed_take_bit_int_eq_self)

lemma sint8_eq_minus_1: "sint (i :: int8) = - 1 \<Longrightarrow> i = - 1"
  by (rule signed_word_eqI [where ?'a = int]) simp

lemma map_upt_Suc_shift: "map f [0..<Suc d] = f 0 # map (\<lambda>m. f (Suc m)) [0..<d]"
  by (simp only: upt_conv_Cons [of 0 "Suc d"] map_Suc_upt [symmetric] list.map map_map o_def)

lemma send_loop_eq:
  "sint i = int k - 1 \<Longrightarrow> k \<le> length data \<Longrightarrow>
   send_loop c data i s =
     Inr (- 1, s\<lparr>trace := trace s @ concat (map (sendByte_events c) (rev (take k data)))\<rparr>)"
proof (induction k arbitrary: i s)
  case 0
  then have "i = - 1"
    by (simp add: sint8_eq_minus_1)
  then show ?case
    by (simp add: send_loop.simps [of c data "- 1"] word_sle_eq)
next
  case (Suc k)
  from Suc.prems have i: "sint i = int k" and k: "k < length data"
    by simp_all
  from i have pred: "sint (i - 1) = int k - 1"
    by (simp add: sint8_pred)
  have "send_loop c data i s = send_loop c data (i - 1) (writeByte c (data ! k) s)"
    using i k by (simp add: send_loop.simps [of c data i] word_sle_eq)
  also have "\<dots> = Inr (- 1, (writeByte c (data ! k) s)
      \<lparr>trace := trace (writeByte c (data ! k) s) @
         concat (map (sendByte_events c) (rev (take k data)))\<rparr>)"
    using Suc.IH [OF pred] k by simp
  finally show ?case
    using k by (simp add: writeByte_eq take_Suc_conv_app_nth)
qed

lemma receive_loop_eq:
  "d = n - j \<Longrightarrow> sint i = int j \<Longrightarrow> sint dataLength = int n \<Longrightarrow> j \<le> n \<Longrightarrow>
   n \<le> length data \<Longrightarrow>
   receive_loop c dataLength data i s =
     Inr (dataLength,
          take j data @ map (\<lambda>m. receiveByte_value (din s) (nreads s + 8 * m)) [0..<d]
            @ drop n data,
          s\<lparr>trace := trace s @
               concat (map (\<lambda>m. receiveByte_events c (din s) (nreads s + 8 * m)) [0..<d]),
            nreads := nreads s + 8 * d\<rparr>)"
proof (induction d arbitrary: j i data s)
  case 0
  then have "sint i = sint dataLength" and "j = n"
    by simp_all
  from this(1) have "i = dataLength"
    by (rule signed_word_eqI [where ?'a = int])
  then show ?case
    using \<open>j = n\<close> by (simp add: receive_loop.simps [of c dataLength data dataLength] word_sless_alt)
next
  case (Suc d)
  let ?b = "receiveByte_value (din s) (nreads s)"
  let ?s = "s\<lparr>trace := trace s @ receiveByte_events c (din s) (nreads s), nreads := nreads s + 8\<rparr>"
  from Suc.prems have j: "j < n" and d: "d = n - Suc j"
    by simp_all
  have "sint dataLength \<le> 127"
    using sint_lt [of dataLength] by simp
  with Suc.prems j have succ: "sint (i + 1) = int (Suc j)"
    by (simp add: sint8_succ)
  have "receive_loop c dataLength data i s =
        receive_loop c dataLength (data[j := ?b]) (i + 1) ?s"
    using Suc.prems j
    by (simp add: receive_loop.simps [of c dataLength data i] word_sless_alt readByte_eq)
  also have "\<dots> =
     Inr (dataLength,
          take (Suc j) (data[j := ?b]) @
            map (\<lambda>m. receiveByte_value (din ?s) (nreads ?s + 8 * m)) [0..<d]
            @ drop n (data[j := ?b]),
          ?s\<lparr>trace := trace ?s @
               concat (map (\<lambda>m. receiveByte_events c (din ?s) (nreads ?s + 8 * m)) [0..<d]),
            nreads := nreads ?s + 8 * d\<rparr>)"
    using Suc.prems j by (intro Suc.IH [OF d succ]) simp_all
  finally have step: "receive_loop c dataLength data i s =
     Inr (dataLength,
          take (Suc j) (data[j := ?b]) @
            map (\<lambda>m. receiveByte_value (din s) (nreads s + 8 * Suc m)) [0..<d]
            @ drop n (data[j := ?b]),
          s\<lparr>trace := trace s @ receiveByte_events c (din s) (nreads s) @
               concat (map (\<lambda>m. receiveByte_events c (din s) (nreads s + 8 * Suc m)) [0..<d]),
            nreads := nreads s + 8 * Suc d\<rparr>)"
    by (simp add: add.assoc)
  have tk: "take (Suc j) (data[j := ?b]) = take j data @ [?b]"
    using Suc.prems j by (simp add: take_Suc_conv_app_nth)
  have dr: "drop n (data[j := ?b]) = drop n data"
    using j by simp
  show ?case
    unfolding step tk dr map_upt_Suc_shift [of _ d]
    by simp
qed

lemma sint8_of_nat: "k \<le> 127 \<Longrightarrow> sint (of_nat k :: int8) = int k"
  by (simp add: signed_of_nat signed_take_bit_int_eq_self)

lemma swapped_address_word: "swapped_address a = drop_bit 4 a OR push_bit 4 a"
  by (rule bit_eqI) (auto simp: swapped_address_def bit_simps)

lemma swapped_address_unat:
  "unat (swapped_address a) = (unat a div 16) OR ((unat a * 16) mod 256)"
proof -
  have "unat (drop_bit 4 a) = unat a div 16"
    by (simp add: drop_bit_eq_div unat_div)
  moreover have "unat (push_bit 4 a) = (unat a * 16) mod 256"
    by (simp add: push_bit_eq_mult unat_word_ariths)
  ultimately show ?thesis
    by (simp only: swapped_address_word unsigned_or_eq)
qed

lemma bit_swapped_address:
  "bit (swapped_address a) n = (n < 8 \<and> (if n < 4 then bit a (n + 4) else bit a (n - 4)))"
  by (auto simp: swapped_address_word bit_simps add.commute dest: bit_imp_le_length)

lemma swapped_address_twice: "swapped_address (swapped_address a) = a"
  by (rule bit_eqI) (auto simp: bit_swapped_address dest: bit_imp_le_length)

lemma line_level_append:
  "line_level p v (xs @ ys) = line_level p (line_level p v xs) ys"
  by (induction p v xs rule: line_level.induct) simp_all

lemma level_history_append:
  "level_history p v (xs @ ys) = level_history p v xs @ level_history p (line_level p v xs) ys"
proof (induction xs arbitrary: v)
  case Nil
  show ?case by simp
next
  case (Cons e es)
  have "line_level p v (e # es) = line_level p (line_level p v [e]) es"
    using line_level_append [of p v "[e]" es] by simp
  with Cons show ?case by simp
qed

lemma line_level_no_write:
  "list_all (\<lambda>e. \<not> writes_pin p e) es \<Longrightarrow> line_level p v es = v"
  by (induction p v es rule: line_level.induct) simp_all

lemma level_history_no_write:
  "list_all (\<lambda>e. \<not> writes_pin p e) es \<Longrightarrow> level_history p v es = replicate (length es) v"
proof (induction es)
  case Nil
  show ?case by simp
next
  case (Cons e es)
  then have "line_level p v [e] = v"
    by (cases e) simp_all
  with Cons show ?case by simp
qed

lemma sendByte_events_clock_low: "line_level (cl_pin c) v (sendByte_events c b) = LOW"
  by (simp add: sendByte_events_def upt_0_8)

lemma receiveByte_events_clock_low: "line_level (cl_pin c) v (receiveByte_events c f k) = LOW"
  by (simp add: receiveByte_events_def upt_0_8)

lemma length_sendByte_events: "length (sendByte_events c b) = 40"
  by (simp add: sendByte_events_def upt_0_8)

lemma payload_events_Nil: "payload_events c []"
  by (simp add: payload_events_def)

lemma payload_events_sendByte:
  "payload_events c P \<Longrightarrow> payload_events c (sendByte_events c b @ P)"
proof -
  have "list_all (payload_event c) (sendByte_events c b)"
    by (simp add: sendByte_events_def upt_0_8)
  then show "payload_events c P \<Longrightarrow> payload_events c (sendByte_events c b @ P)"
    by (simp add: payload_events_def line_level_append sendByte_events_clock_low)
qed

lemma payload_events_receiveByte:
  "payload_events c P \<Longrightarrow> payload_events c (receiveByte_events c f k @ P)"
proof -
  have "list_all (payload_event c) (receiveByte_events c f k)"
    by (simp add: receiveByte_events_def upt_0_8)
  then show "payload_events c P \<Longrightarrow> payload_events c (receiveByte_events c f k @ P)"
    by (simp add: payload_events_def line_level_append receiveByte_events_clock_low)
qed

lemma payload_events_out_low:
  "payload_events c P \<Longrightarrow> payload_events c (P @ [DigitalWrite (do_pin c) LOW])"
  by (auto simp: payload_events_def line_level_append)

lemma payload_events_no_write:
  "list_all (payload_event c) P \<Longrightarrow> p \<noteq> do_pin c \<Longrightarrow> p \<noteq> cl_pin c \<Longrightarrow>
   list_all (\<lambda>e. \<not> writes_pin p e) P"
proof (induction P)
  case Nil
  show ?case by simp
next
  case (Cons e P)
  then show ?case
    by (cases e) auto
qed

lemma send_loop_events:
  "send_loop c data i s = Inr (j, s') \<Longrightarrow> \<exists>P. trace s' = trace s @ P \<and> payload_events c P"
proof (induction c data i s rule: send_loop.induct)
  case (1 c data i s)
  show ?case
  proof (cases "word_sle 0 i")
    case False
    with "1.prems" have "s' = s"
      by (simp add: send_loop.simps [of c data i])
    then show ?thesis
      by (simp add: payload_events_Nil)
  next
    case True
    with "1.prems" have len: "nat (sint i) < length data"
      and run: "send_loop c data (i - 1) (writeByte c (data ! nat (sint i)) s) = Inr (j, s')"
      by (simp_all add: send_loop.simps [of c data i] split: if_splits)
    from "1.IH" [OF True len run]
    obtain P where P: "trace s' = trace (writeByte c (data ! nat (sint i)) s) @ P"
      "payload_events c P"
      by blast
    let ?A = "sendByte_events c (data ! nat (sint i))"
    have "trace s' = trace s @ (?A @ P)"
      using P(1) by (simp add: writeByte_eq)
    moreover have "payload_events c (?A @ P)"
      using P(2) by (rule payload_events_sendByte)
    ultimately show ?thesis by blast
  qed
qed

lemma receive_loop_events:
  "receive_loop c n data i s = Inr (j, data', s') \<Longrightarrow>
    \<exists>P. trace s' = trace s @ P \<and> payload_events c P"
proof (induction c n data i s rule: receive_loop.induct)
  case (1 c n data i s)
  show ?case
  proof (cases "word_sless i n")
    case False
    with "1.prems" have "s' = s"
      by (simp add: receive_loop.simps [of c n data i])
    then show ?thesis
      by (simp add: payload_events_Nil)
  next
    case True
    let ?b = "receiveByte_value (din s) (nreads s)"
    let ?A = "receiveByte_events c (din s) (nreads s)"
    let ?s = "s\<lparr>trace := trace s @ ?A, nreads := nreads s + 8\<rparr>"
    have rb: "readByte c s = (?b, ?s)"
      by (rule readByte_eq)
    from True "1.prems" have ok: "0 \<le> sint i \<and> nat (sint i) < length data"
      and run: "receive_loop c n (data[nat (sint i) := ?b]) (i + 1) ?s = Inr (j, data', s')"
      by (simp_all add: receive_loop.simps [of c n data i] rb split: if_splits)
    from "1.IH" [OF True rb [symmetric] refl ok run]
    obtain P where P: "trace s' = trace ?s @ P" "payload_events c P"
      by blast
    have "trace s' = trace s @ (?A @ P)"
      using P(1) by simp
    moreover have "payload_events c (?A @ P)"
      using P(2) by (rule payload_events_receiveByte)
    ultimately show ?thesis by blast
  qed
qed

lemma ccb_shape:
  assumes run: "ccb c a data n mode s = Inr (data', s')"
  shows "\<exists>P. trace s' = trace s @ address_events c a @ enter_events c @ P @ exit_events c \<and>
    payload_events c P"
proof -
  let ?s = "s\<lparr>trace := trace s @ address_events c a @ enter_events c\<rparr>"
  consider (send) "mode = CCB_SEND" | (recv) "mode \<noteq> CCB_SEND" "mode = CCB_RECEIVE"
    | (other) "mode \<noteq> CCB_SEND" "mode \<noteq> CCB_RECEIVE"
    by blast
  then show ?thesis
  proof cases
    case send
    with run obtain j s1 where loop: "send_loop c data (n - 1) ?s = Inr (j, s1)"
      and s': "trace s' = trace s1 @ [DigitalWrite (do_pin c) LOW] @ exit_events c"
      by (auto simp: ccb_def Let_def writeByte_eq digitalWrite_def delayMicroseconds_def
          CCB_DELAY_def address_events_def enter_events_def exit_events_def
          split: sum.splits)
    from send_loop_events [OF loop] obtain P where "trace s1 = trace ?s @ P"
      and "payload_events c P"
      by blast
    with s' have "trace s' = trace s @ address_events c a @ enter_events c @
        (P @ [DigitalWrite (do_pin c) LOW]) @ exit_events c"
      and "payload_events c (P @ [DigitalWrite (do_pin c) LOW])"
      by (simp_all add: payload_events_out_low)
    then show ?thesis by blast
  next
    case recv
    with run obtain j s1 where loop: "receive_loop c n data 0 ?s = Inr (j, data', s1)"
      and s': "trace s' = trace s1 @ exit_events c"
      by (auto simp: ccb_def Let_def writeByte_eq digitalWrite_def delayMicroseconds_def
          CCB_DELAY_def address_events_def enter_events_def exit_events_def
          split: sum.splits)
    from receive_loop_events [OF loop] obtain P where "trace s1 = trace ?s @ P"
      and "payload_events c P"
      by blast
    with s' have "trace s' = trace s @ address_events c a @ enter_events c @ P @ exit_events c"
      by simp
    with \<open>payload_events c P\<close> show ?thesis by blast
  next
    case other
    with run have "trace s' = trace s @ address_events c a @ enter_events c @ [] @ exit_events c"
      by (auto simp: ccb_def Let_def writeByte_eq digitalWrite_def delayMicroseconds_def
          CCB_DELAY_def address_events_def enter_events_def exit_events_def)
    with payload_events_Nil show ?thesis by blast
  qed
qed

lemma ccb_send_eq:
  assumes "sint n = int k" and "k \<le> length data"
  shows "ccb c a data n CCB_SEND s =
     Inr (data, s\<lparr>trace := trace s @ address_events c a @ enter_events c @
        concat (map (sendByte_events c) (rev (take k data))) @
        [DigitalWrite (do_pin c) LOW] @ exit_events c\<rparr>)"
proof -
  from assms(1) have "sint (n - 1) = int k - 1"
    by (simp add: sint8_pred)
  from send_loop_eq [OF this assms(2)] show ?thesis
    by (simp add: ccb_def Let_def writeByte_eq digitalWrite_def delayMicroseconds_def
        CCB_DELAY_def address_events_def enter_events_def exit_events_def)
qed

lemma ccb_receive_eq:
  assumes "sint n = int k" and "k \<le> length data"
  shows "ccb c a data n CCB_RECEIVE s =
     Inr (map (\<lambda>m. receiveByte_value (din s) (nreads s + 8 * m)) [0..<k] @ drop k data,
          s\<lparr>trace := trace s @ address_events c a @ enter_events c @
               concat (map (\<lambda>m. receiveByte_events c (din s) (nreads s + 8 * m)) [0..<k]) @
               exit_events c,
            nreads := nreads s + 8 * k\<rparr>)"
proof -
  let ?s = "s\<lparr>trace := trace s @ address_events c a @ enter_events c\<rparr>"
  have "receive_loop c n data 0 ?s =
     Inr (n, take 0 data @ map (\<lambda>m. receiveByte_value (din ?s) (nreads ?s + 8 * m)) [0..<k]
            @ drop k data,
          ?s\<lparr>trace := trace ?s @
               concat (map (\<lambda>m. receiveByte_events c (din ?s) (nreads ?s + 8 * m)) [0..<k]),
            nreads := nreads ?s + 8 * k\<rparr>)"
    using assms by (intro receive_loop_eq [where j = 0]) simp_all
  then show ?thesis
    by (simp add: ccb_def Let_def writeByte_eq digitalWrite_def delayMicroseconds_def
        CCB_DELAY_def CCB_SEND_def CCB_RECEIVE_def address_events_def enter_events_def
        exit_events_def)
qed

lemma ccb_send_negative:
  assumes "sint n < 0" and "- 128 < sint n"
  shows "ccb c a data n CCB_SEND s =
     Inr (data, s\<lparr>trace := trace s @ address_events c a @ enter_events c @
        [DigitalWrite (do_pin c) LOW] @ exit_events c\<rparr>)"
proof -
  from assms have "sint (n - 1) = sint n - 1"
    using sint_lt [of n] by (simp add: sint_word_ariths signed_take_bit_int_eq_self)
  with assms have "\<not> word_sle 0 (n - 1)"
    by (simp add: word_sle_eq)
  then show ?thesis
    by (simp add: ccb_def Let_def send_loop.simps [of c data "n - 1"] writeByte_eq
        digitalWrite_def delayMicroseconds_def CCB_DELAY_def address_events_def
        enter_events_def exit_events_def)
qed

lemma ccb_receive_negative:
  assumes "sint n \<le> 0"
  shows "ccb c a data n CCB_RECEIVE s =
     Inr (data, s\<lparr>trace := trace s @ address_events c a @ enter_events c @ exit_events c\<rparr>)"
proof -
  from assms have "\<not> word_sless 0 n"
    by (simp add: word_sless_alt)
  then show ?thesis
    by (simp add: ccb_def Let_def receive_loop.simps [of c n data 0] writeByte_eq
        digitalWrite_def delayMicroseconds_def CCB_DELAY_def CCB_SEND_def CCB_RECEIVE_def
        address_events_def enter_events_def exit_events_def)
qed

lemma ccb_send_loop_eq:
  assumes "sint (n - 1) = int k - 1" and "k \<le> length data"
  shows "ccb c a data n CCB_SEND s =
     Inr (data, s\<lparr>trace := trace s @ address_events c a @ enter_events c @
        concat (map (sendByte_events c) (rev (take k data))) @
        [DigitalWrite (do_pin c) LOW] @ exit_events c\<rparr>)"
  using send_loop_eq [OF assms]
  by (simp add: ccb_def Let_def writeByte_eq digitalWrite_def delayMicroseconds_def
      CCB_DELAY_def address_events_def enter_events_def exit_events_def)

lemma length_address_events: "length (address_events c a) = 40"
  by (simp add: address_events_def length_sendByte_events)

lemma address_events_no_write:
  "p \<noteq> do_pin c \<Longrightarrow> p \<noteq> cl_pin c \<Longrightarrow> list_all (\<lambda>e. \<not> writes_pin p e) (address_events c a)"
  by (simp add: address_events_def sendByte_events_def upt_0_8)

lemma take_as_map_nth: "k \<le> length xs \<Longrightarrow> take k xs = map (\<lambda>i. xs ! i) [0..<k]"
  by (rule nth_equalityI) simp_all

lemma sint8_eq_minus_128: "sint (n :: int8) = - 128 \<Longrightarrow> n = - 128"
  by (rule signed_word_eqI [where ?'a = int]) simp

section \<open>The claims\<close>

text \<open>
  Claim C1. For every address byte \<open>a\<close>, the byte framed for the address phase is
  \<^verbatim>\<open>(a >> 4) | ((a << 4) & 0xFF)\<close>: read as a number, \<open>a div 16\<close> combined with
  \<open>a * 16 mod 256\<close>; as 8-bit operations, the logical right shift by 4 combined with the
  truncating left shift by 4. Exchanging the nibbles twice gives the address back. Every
  transfer that returns has appended, first of all, the serialisation of that framed byte
  to the trace.
\<close>

theorem address_nibble_swap:
  "unat (swapped_address a) = (unat a div 16) OR ((unat a * 16) mod 256) \<and>
   swapped_address a = drop_bit 4 a OR push_bit 4 a \<and>
   swapped_address (swapped_address a) = a \<and>
   (ccb c a data n mode s = Inr (data', s') \<longrightarrow>
      (\<exists>rest. trace s' = trace s @ sendByte_events c (swapped_address a) @ rest))"
proof -
  have "\<exists>rest. trace s' = trace s @ sendByte_events c (swapped_address a) @ rest"
    if "ccb c a data n mode s = Inr (data', s')"
    using ccb_shape [OF that] by (auto simp: address_events_def)
  then show ?thesis
    by (simp add: swapped_address_unat swapped_address_twice flip: swapped_address_word)
qed

text \<open>
  The transfer of the specification's scenario, \<^verbatim>\<open>write(0x05, [0xAA, 0xBB], 2)\<close>, returns,
  and its framed address byte is \<^verbatim>\<open>0x50\<close>.
\<close>

theorem address_nibble_swap_witness:
  "ccb example_bus 5 [0xAA, 0xBB] 2 CCB_SEND quiet_world =
     Inr ([0xAA, 0xBB], quiet_world\<lparr>trace := sendByte_events example_bus 0x50 @
        enter_events example_bus @ sendByte_events example_bus 0xBB @
        sendByte_events example_bus 0xAA @ [DigitalWrite 2 LOW] @ exit_events example_bus\<rparr>) \<and>
   unat (swapped_address 5) = 80 \<and> swapped_address (swapped_address 5) = 5"
proof -
  have sw: "swapped_address 5 = 0x50"
    by (simp add: swapped_address_def)
  have run: "ccb example_bus 5 [0xAA, 0xBB] 2 CCB_SEND quiet_world =
     Inr ([0xAA, 0xBB], quiet_world\<lparr>trace := sendByte_events example_bus 0x50 @
        enter_events example_bus @ sendByte_events example_bus 0xBB @
        sendByte_events example_bus 0xAA @ [DigitalWrite 2 LOW] @ exit_events example_bus\<rparr>)"
    using ccb_send_eq [of 2 2 "[0xAA, 0xBB]" example_bus 5 quiet_world]
    by (simp add: address_events_def sw quiet_world_def example_bus_def SanyoCCB_new_def
        numeral_2_eq_2)
  from address_nibble_swap [of 5 example_bus "[0xAA, 0xBB]" 2 CCB_SEND quiet_world]
  show ?thesis
    by (simp add: run sw)
qed

text \<open>
  Claim C2. For every byte \<open>b\<close>, \<^verbatim>\<open>writeByte\<close> changes nothing but the trace, to which it
  appends, for each bit index 0 to 7 in ascending order: OUT driven to that bit of \<open>b\<close>,
  CLOCK raised, one delay unit, CLOCK lowered, one delay unit. When CLOCK and OUT are
  different lines and CLOCK was low, the level of CLOCK after each of these events is
  low, high, high, low, low for every bit: one rising and one falling edge per bit.
\<close>

theorem writeByte_lsb_first:
  "writeByte c b s =
     s\<lparr>trace := trace s @
        concat (map (\<lambda>i. [DigitalWrite (do_pin c) (bit b i),
                           DigitalWrite (cl_pin c) HIGH, DelayMicroseconds CCB_DELAY,
                           DigitalWrite (cl_pin c) LOW, DelayMicroseconds CCB_DELAY])
                    [0..<8])\<rparr> \<and>
   (cl_pin c \<noteq> do_pin c \<longrightarrow>
      level_history (cl_pin c) LOW (sendByte_events c b) =
        concat (map (\<lambda>i. [LOW, HIGH, HIGH, LOW, LOW]) [0..<8]))"
  by (simp add: writeByte_eq sendByte_events_def CCB_DELAY_def upt_0_8)

text \<open>
  On the example bus (OUT is pin 2, CLOCK is pin 3), sending \<^verbatim>\<open>0x01\<close> drives OUT high for
  bit 0 only, and CLOCK shows its eight pulses.
\<close>

theorem writeByte_lsb_first_witness:
  "cl_pin example_bus \<noteq> do_pin example_bus \<and>
   take 5 (trace (writeByte example_bus 1 quiet_world)) =
     [DigitalWrite 2 HIGH, DigitalWrite 3 HIGH, DelayMicroseconds 100,
      DigitalWrite 3 LOW, DelayMicroseconds 100] \<and>
   take 5 (level_history (cl_pin example_bus) LOW (sendByte_events example_bus 1)) =
     [LOW, HIGH, HIGH, LOW, LOW]"
  using writeByte_lsb_first [of example_bus 1 quiet_world]
  by (simp add: example_bus_def SanyoCCB_new_def quiet_world_def CCB_DELAY_def upt_0_8)

text \<open>
  Claim C3. For every eight levels that the environment presents on IN, \<^verbatim>\<open>readByte\<close>
  appends to the trace, eight times: CLOCK raised, one delay unit, IN sampled, CLOCK
  lowered, one delay unit; it consumes eight samples; and it returns the byte whose bit
  \<open>i\<close> is the sample taken on pulse \<open>7 - i\<close>: the first sample is bit 7, the last is bit 0.
\<close>

theorem readByte_msb_first:
  "readByte c s =
     (receiveByte_value (din s) (nreads s),
      s\<lparr>trace := trace s @
           concat (map (\<lambda>j. [DigitalWrite (cl_pin c) HIGH, DelayMicroseconds CCB_DELAY,
                              DigitalRead (di_pin c) (din s (nreads s + j)),
                              DigitalWrite (cl_pin c) LOW, DelayMicroseconds CCB_DELAY])
                       [0..<8]),
        nreads := nreads s + 8\<rparr>) \<and>
   bit (fst (readByte c s)) i = (i < 8 \<and> din s (nreads s + (7 - i))) \<and>
   bit (fst (readByte c s)) 7 = din s (nreads s)"
  by (simp add: readByte_eq receiveByte_events_def CCB_DELAY_def bit_receiveByte_value)

text \<open>
  Claim C4. A write of a buffer \<open>ps\<close> of at most 127 bytes, with its length as
  \<^verbatim>\<open>dataLength\<close>, returns with the buffer unchanged, and what it has appended to the trace
  is: the address byte, CLOCK low, ENABLE high, one delay unit, then the bytes of \<open>ps\<close>
  serialised last to first, then OUT driven low, then ENABLE low and one delay unit.
\<close>

theorem write_sends_reversed:
  assumes "length ps \<le> 127"
  shows "SanyoCCB_write c a ps (of_nat (length ps)) s =
     Inr (ps, s\<lparr>trace := trace s @ sendByte_events c (swapped_address a) @
        [DigitalWrite (cl_pin c) LOW, DigitalWrite (ce_pin c) HIGH, DelayMicroseconds 100] @
        concat (map (sendByte_events c) (rev ps)) @
        [DigitalWrite (do_pin c) LOW] @
        [DigitalWrite (ce_pin c) LOW, DelayMicroseconds 100]\<rparr>)"
  using ccb_send_eq [of "of_nat (length ps)" "length ps" ps c a s] assms
  by (simp add: SanyoCCB_write_def sint8_of_nat address_events_def enter_events_def
      exit_events_def)

text \<open>
  The scenario of the specification: \<^verbatim>\<open>write(0x05, [0xAA, 0xBB], 2)\<close> puts the framed
  address \<^verbatim>\<open>0x50\<close>, then \<^verbatim>\<open>0xBB\<close>, then \<^verbatim>\<open>0xAA\<close> on the line.
\<close>

theorem write_sends_reversed_witness:
  "length [0xAA, 0xBB :: byte] \<le> 127 \<and>
   SanyoCCB_write example_bus 5 [0xAA, 0xBB] 2 quiet_world =
     Inr ([0xAA, 0xBB], quiet_world\<lparr>trace := sendByte_events example_bus 0x50 @
        [DigitalWrite 3 LOW, DigitalWrite 5 HIGH, DelayMicroseconds 100] @
        sendByte_events example_bus 0xBB @ sendByte_events example_bus 0xAA @
        [DigitalWrite 2 LOW, DigitalWrite 5 LOW, DelayMicroseconds 100]\<rparr>)"
proof -
  have sw: "swapped_address 5 = 0x50"
    by (simp add: swapped_address_def)
  from write_sends_reversed [of "[0xAA, 0xBB]" example_bus 5 quiet_world]
  show ?thesis
    by (simp add: sw quiet_world_def example_bus_def SanyoCCB_new_def)
qed

text \<open>
  Claim C5. A read of \<open>n\<close> bytes, with \<open>n\<close> at most 127 and a buffer of at least \<open>n\<close> bytes,
  returns; it has made exactly \<open>n\<close> byte receptions (their events appended in order, \<open>8 * n\<close>
  samples consumed); and the \<open>i\<close>-th byte received, assembled from the samples
  \<open>8 * i\<close>, ..., \<open>8 * i + 7\<close> after those already taken, is at index \<open>i\<close> of the buffer
  returned, \<open>i\<close> from 0 to \<open>n - 1\<close>. The rest of the buffer is unchanged.
\<close>

theorem read_fills_forward:
  assumes "n \<le> 127" and "n \<le> length data"
  shows "SanyoCCB_read c a data (of_nat n) s =
     Inr (map (\<lambda>i. receiveByte_value (din s) (nreads s + 8 * i)) [0..<n] @ drop n data,
          s\<lparr>trace := trace s @ sendByte_events c (swapped_address a) @
               [DigitalWrite (cl_pin c) LOW, DigitalWrite (ce_pin c) HIGH,
                DelayMicroseconds 100] @
               concat (map (\<lambda>i. receiveByte_events c (din s) (nreads s + 8 * i)) [0..<n]) @
               [DigitalWrite (ce_pin c) LOW, DelayMicroseconds 100],
            nreads := nreads s + 8 * n\<rparr>)"
  using ccb_receive_eq [of "of_nat n" n data c a s] assms
  by (simp add: SanyoCCB_read_def sint8_of_nat address_events_def enter_events_def
      exit_events_def)

text \<open>
  Reading two bytes into a buffer of three, on a bus whose IN line stays low, fills the
  first two bytes with zero and leaves the third.
\<close>

theorem read_fills_forward_witness:
  "(2::nat) \<le> 127 \<and> 2 \<le> length [0xAA, 0xBB, 0xCC :: byte] \<and>
   SanyoCCB_read example_bus 5 [0xAA, 0xBB, 0xCC] 2 quiet_world =
     Inr ([0, 0, 0xCC],
          quiet_world\<lparr>trace := sendByte_events example_bus 0x50 @
               [DigitalWrite 3 LOW, DigitalWrite 5 HIGH, DelayMicroseconds 100] @
               receiveByte_events example_bus (din quiet_world) 0 @
               receiveByte_events example_bus (din quiet_world) 8 @
               [DigitalWrite 5 LOW, DelayMicroseconds 100],
            nreads := 16\<rparr>)"
proof -
  have sw: "swapped_address 5 = 0x50"
    by (simp add: swapped_address_def)
  have rv: "receiveByte_value (\<lambda>k. False) m = 0" for m
    by (simp add: receiveByte_value_def upt_0_8)
  from read_fills_forward [of 2 "[0xAA, 0xBB, 0xCC]" example_bus 5 quiet_world]
  show ?thesis
    by (simp add: sw rv quiet_world_def example_bus_def SanyoCCB_new_def numeral_2_eq_2)
qed

text \<open>
  Claim C6. Take a transfer that returns, on a bus whose ENABLE line is neither its OUT
  nor its CLOCK line. What it appends to the trace is the address byte, then CLOCK
  driven low, ENABLE driven high and one delay unit, then the payload events \<open>P\<close>, then
  ENABLE driven low and one delay unit. If ENABLE was low when the transfer started, its
  level after each event in turn is: low through the address byte and the write that
  drives CLOCK low, high from its raise through every payload event, low after its
  last write and the delay that follows. Whatever the lines were before, ENABLE and
  CLOCK are low when the call returns.
\<close>

theorem ccb_enable_framing:
  assumes "ce_pin c \<noteq> do_pin c" and "ce_pin c \<noteq> cl_pin c"
    and "ccb c a data n mode s = Inr (data', s')"
  shows "\<exists>P. trace s' = trace s @ address_events c a @
           [DigitalWrite (cl_pin c) LOW, DigitalWrite (ce_pin c) HIGH, DelayMicroseconds 100] @
           P @ [DigitalWrite (ce_pin c) LOW, DelayMicroseconds 100] \<and>
         level_history (ce_pin c) LOW (address_events c a @
           [DigitalWrite (cl_pin c) LOW, DigitalWrite (ce_pin c) HIGH, DelayMicroseconds 100] @
           P @ [DigitalWrite (ce_pin c) LOW, DelayMicroseconds 100]) =
           replicate (length (address_events c a) + 1) LOW @
           replicate (2 + length P) HIGH @ [LOW, LOW] \<and>
         line_level (ce_pin c) v (trace s') = LOW \<and>
         line_level (cl_pin c) w (trace s') = LOW"
proof -
  from ccb_shape [OF assms(3)] obtain P
    where tr: "trace s' = trace s @ address_events c a @ enter_events c @ P @ exit_events c"
      and P: "payload_events c P"
    by blast
  from P assms(1,2) have nw: "list_all (\<lambda>e. \<not> writes_pin (ce_pin c) e) P"
    and cl: "line_level (cl_pin c) LOW P = LOW"
    by (auto simp: payload_events_def intro: payload_events_no_write)
  have A: "list_all (\<lambda>e. \<not> writes_pin (ce_pin c) e) (address_events c a)"
    using assms(1,2) by (rule address_events_no_write)
  have "level_history (ce_pin c) LOW (address_events c a @
           [DigitalWrite (cl_pin c) LOW, DigitalWrite (ce_pin c) HIGH, DelayMicroseconds 100] @
           P @ [DigitalWrite (ce_pin c) LOW, DelayMicroseconds 100]) =
           replicate (length (address_events c a) + 1) LOW @
           replicate (2 + length P) HIGH @ [LOW, LOW]"
    using assms(2)
    by (simp add: level_history_append line_level_append level_history_no_write [OF A]
        line_level_no_write [OF A] level_history_no_write [OF nw] line_level_no_write [OF nw]
        replicate_append_same)
  moreover have "line_level (ce_pin c) v (trace s') = LOW"
    by (simp add: tr line_level_append exit_events_def)
  moreover have "line_level (cl_pin c) w (trace s') = LOW"
    using assms(2) cl by (simp add: tr line_level_append enter_events_def exit_events_def)
  ultimately show ?thesis
    using tr by (auto simp: enter_events_def exit_events_def)
qed

text \<open>
  The write of the specification's scenario returns on the example bus (ENABLE is pin 5),
  and leaves ENABLE low even if it had been high before.
\<close>

theorem ccb_enable_framing_witness:
  "ce_pin example_bus \<noteq> do_pin example_bus \<and> ce_pin example_bus \<noteq> cl_pin example_bus \<and>
   ccb example_bus 5 [0xAA, 0xBB] 2 CCB_SEND quiet_world =
     Inr ([0xAA, 0xBB], quiet_world\<lparr>trace := address_events example_bus 5 @
        enter_events example_bus @ sendByte_events example_bus 0xBB @
        sendByte_events example_bus 0xAA @ [DigitalWrite 2 LOW] @ exit_events example_bus\<rparr>) \<and>
   line_level (ce_pin example_bus) HIGH (address_events example_bus 5 @
        enter_events example_bus @ sendByte_events example_bus 0xBB @
        sendByte_events example_bus 0xAA @ [DigitalWrite 2 LOW] @ exit_events example_bus) = LOW"
proof -
  let ?T = "address_events example_bus 5 @
        enter_events example_bus @ sendByte_events example_bus 0xBB @
        sendByte_events example_bus 0xAA @ [DigitalWrite 2 LOW] @ exit_events example_bus"
  have pins: "ce_pin example_bus \<noteq> do_pin example_bus" "ce_pin example_bus \<noteq> cl_pin example_bus"
    by (simp_all add: example_bus_def SanyoCCB_new_def)
  have run: "ccb example_bus 5 [0xAA, 0xBB] 2 CCB_SEND quiet_world =
     Inr ([0xAA, 0xBB], quiet_world\<lparr>trace := ?T\<rparr>)"
    using ccb_send_eq [of 2 2 "[0xAA, 0xBB]" example_bus 5 quiet_world]
    by (simp add: quiet_world_def example_bus_def SanyoCCB_new_def numeral_2_eq_2)
  from ccb_enable_framing [OF pins run, of HIGH]
  have "line_level (ce_pin example_bus) HIGH ?T = LOW"
    by auto
  with pins run show ?thesis
    by simp
qed

text \<open>
  Claim C7. With \<^verbatim>\<open>dataLength = 0\<close>, a write and a read return for every buffer, the
  empty one included, and return it unchanged; no sample of IN is taken; the trace grows
  by the address byte, the entry into the data phase (CLOCK low, ENABLE high, one delay
  unit) and the exit from it (ENABLE low, one delay unit), with no byte serialised or
  received in between. The write drives OUT low before the exit, as it does after any
  payload.
\<close>

theorem transfer_of_length_zero:
  "SanyoCCB_write c a data 0 s =
     Inr (data, s\<lparr>trace := trace s @ sendByte_events c (swapped_address a) @
        [DigitalWrite (cl_pin c) LOW, DigitalWrite (ce_pin c) HIGH, DelayMicroseconds 100] @
        [DigitalWrite (do_pin c) LOW] @
        [DigitalWrite (ce_pin c) LOW, DelayMicroseconds 100]\<rparr>) \<and>
   SanyoCCB_read c a data 0 s =
     Inr (data, s\<lparr>trace := trace s @ sendByte_events c (swapped_address a) @
        [DigitalWrite (cl_pin c) LOW, DigitalWrite (ce_pin c) HIGH, DelayMicroseconds 100] @
        [DigitalWrite (ce_pin c) LOW, DelayMicroseconds 100]\<rparr>)"
  using ccb_send_eq [of 0 0 data c a s] ccb_receive_negative [of 0 c a data s]
  by (simp add: SanyoCCB_write_def SanyoCCB_read_def address_events_def enter_events_def
      exit_events_def)

text \<open>
  Claim C8. With \<^verbatim>\<open>dataLength = 127\<close> and a buffer of at least 127 bytes: the SEND loop
  starts with the counter at 126 (the subtraction does not wrap), serialises the bytes at
  the indices 126, 125, ..., 0 in this order, 127 bytes in all, and leaves the counter at
  -1; the RECEIVE loop starts at 0, receives 127 bytes into the indices 0, 1, ..., 126 and
  leaves the counter at 127. Every value of the counter is the result on the integers:
  nothing wraps. Both transfers return.
\<close>

theorem transfer_of_length_127:
  assumes "127 \<le> length data"
  shows "sint (127 - 1 :: int8) = 126 \<and>
    send_loop c data (127 - 1) s =
      Inr (- 1, s\<lparr>trace := trace s @
         concat (map (\<lambda>i. sendByte_events c (data ! i)) (rev [0..<127]))\<rparr>) \<and>
    sint (- 1 :: int8) = - 1 \<and>
    receive_loop c 127 data 0 s =
      Inr (127, map (\<lambda>i. receiveByte_value (din s) (nreads s + 8 * i)) [0..<127] @
             drop 127 data,
           s\<lparr>trace := trace s @
                concat (map (\<lambda>i. receiveByte_events c (din s) (nreads s + 8 * i)) [0..<127]),
             nreads := nreads s + 8 * 127\<rparr>) \<and>
    sint (127 :: int8) = 127 \<and>
    SanyoCCB_write c a data 127 s =
      Inr (data, s\<lparr>trace := trace s @ address_events c a @ enter_events c @
         concat (map (\<lambda>i. sendByte_events c (data ! i)) (rev [0..<127])) @
         [DigitalWrite (do_pin c) LOW] @ exit_events c\<rparr>) \<and>
    SanyoCCB_read c a data 127 s =
      Inr (map (\<lambda>i. receiveByte_value (din s) (nreads s + 8 * i)) [0..<127] @ drop 127 data,
           s\<lparr>trace := trace s @ address_events c a @ enter_events c @
                concat (map (\<lambda>i. receiveByte_events c (din s) (nreads s + 8 * i)) [0..<127]) @
                exit_events c,
             nreads := nreads s + 8 * 127\<rparr>)"
proof -
  have tk: "rev (take 127 data) = map (\<lambda>i. data ! i) (rev [0..<127])"
    using assms by (simp only: take_as_map_nth rev_map)
  have send: "send_loop c data (127 - 1) s =
      Inr (- 1, s\<lparr>trace := trace s @
         concat (map (\<lambda>i. sendByte_events c (data ! i)) (rev [0..<127]))\<rparr>)"
    using send_loop_eq [of "127 - 1" 127 data c s] assms
    by (simp only: tk map_map o_def) simp
  have recv: "receive_loop c 127 data 0 s =
      Inr (127, map (\<lambda>i. receiveByte_value (din s) (nreads s + 8 * i)) [0..<127] @
             drop 127 data,
           s\<lparr>trace := trace s @
                concat (map (\<lambda>i. receiveByte_events c (din s) (nreads s + 8 * i)) [0..<127]),
             nreads := nreads s + 8 * 127\<rparr>)"
    using receive_loop_eq [of 127 127 0 0 127 data c s] assms
    by simp
  have wr: "SanyoCCB_write c a data 127 s =
      Inr (data, s\<lparr>trace := trace s @ address_events c a @ enter_events c @
         concat (map (\<lambda>i. sendByte_events c (data ! i)) (rev [0..<127])) @
         [DigitalWrite (do_pin c) LOW] @ exit_events c\<rparr>)"
    using ccb_send_eq [of 127 127 data c a s] assms
    by (simp only: tk map_map o_def SanyoCCB_write_def) simp
  have rd: "SanyoCCB_read c a data 127 s =
      Inr (map (\<lambda>i. receiveByte_value (din s) (nreads s + 8 * i)) [0..<127] @ drop 127 data,
           s\<lparr>trace := trace s @ address_events c a @ enter_events c @
                concat (map (\<lambda>i. receiveByte_events c (din s) (nreads s + 8 * i)) [0..<127]) @
                exit_events c,
             nreads := nreads s + 8 * 127\<rparr>)"
    using ccb_receive_eq [of 127 127 data c a s] assms
    by (simp add: SanyoCCB_read_def)
  have "sint (127 - 1 :: int8) = 126" "sint (- 1 :: int8) = - 1" "sint (127 :: int8) = 127"
    by simp_all
  with send recv wr rd show ?thesis
    by (simp only: simp_thms)
qed

text \<open>
  A buffer of exactly 127 bytes on the example bus.
\<close>

theorem transfer_of_length_127_witness:
  "127 \<le> length (replicate 127 (0xFF :: byte)) \<and>
   send_loop example_bus (replicate 127 0xFF) (127 - 1) quiet_world =
      Inr (- 1, quiet_world\<lparr>trace := trace quiet_world @
         concat (map (\<lambda>i. sendByte_events example_bus (replicate 127 0xFF ! i))
           (rev [0..<127]))\<rparr>)"
  using transfer_of_length_127 [of "replicate 127 0xFF" example_bus quiet_world 5]
  by simp

text \<open>
  Claim C9. \<^verbatim>\<open>init\<close> changes nothing but the trace, to which it appends: OUT, CLOCK and
  ENABLE configured as outputs, IN configured as an input and then written high (its
  pull-up), OUT driven low, CLOCK driven low, ENABLE driven high, one delay unit, ENABLE
  driven low, one delay unit. Afterwards OUT, CLOCK and ENABLE are low. When the four
  lines are distinct, OUT, CLOCK and ENABLE are outputs, IN is an input whose latch is
  high, and ENABLE, untouched by the first seven calls, is high after its first write and
  the delay, and low after its second write and the delay: one pulse.
\<close>

theorem init_idle_bus:
  "init c s =
     s\<lparr>trace := trace s @
        [PinMode (do_pin c) OUTPUT, PinMode (cl_pin c) OUTPUT, PinMode (ce_pin c) OUTPUT,
         PinMode (di_pin c) INPUT, DigitalWrite (di_pin c) HIGH,
         DigitalWrite (do_pin c) LOW, DigitalWrite (cl_pin c) LOW,
         DigitalWrite (ce_pin c) HIGH, DelayMicroseconds 100,
         DigitalWrite (ce_pin c) LOW, DelayMicroseconds 100]\<rparr> \<and>
   line_level (do_pin c) v (trace (init c s)) = LOW \<and>
   line_level (cl_pin c) v (trace (init c s)) = LOW \<and>
   line_level (ce_pin c) v (trace (init c s)) = LOW \<and>
   (distinct [do_pin c, cl_pin c, di_pin c, ce_pin c] \<longrightarrow>
      line_mode (do_pin c) m (trace (init c s)) = Some OUTPUT \<and>
      line_mode (cl_pin c) m (trace (init c s)) = Some OUTPUT \<and>
      line_mode (ce_pin c) m (trace (init c s)) = Some OUTPUT \<and>
      line_mode (di_pin c) m (trace (init c s)) = Some INPUT \<and>
      line_level (di_pin c) v (trace (init c s)) = HIGH \<and>
      level_history (ce_pin c) v
        [PinMode (do_pin c) OUTPUT, PinMode (cl_pin c) OUTPUT, PinMode (ce_pin c) OUTPUT,
         PinMode (di_pin c) INPUT, DigitalWrite (di_pin c) HIGH,
         DigitalWrite (do_pin c) LOW, DigitalWrite (cl_pin c) LOW,
         DigitalWrite (ce_pin c) HIGH, DelayMicroseconds 100,
         DigitalWrite (ce_pin c) LOW, DelayMicroseconds 100] =
        [v, v, v, v, v, v, v, HIGH, HIGH, LOW, LOW])"
proof -
  have eq: "init c s =
     s\<lparr>trace := trace s @
        [PinMode (do_pin c) OUTPUT, PinMode (cl_pin c) OUTPUT, PinMode (ce_pin c) OUTPUT,
         PinMode (di_pin c) INPUT, DigitalWrite (di_pin c) HIGH,
         DigitalWrite (do_pin c) LOW, DigitalWrite (cl_pin c) LOW,
         DigitalWrite (ce_pin c) HIGH, DelayMicroseconds 100,
         DigitalWrite (ce_pin c) LOW, DelayMicroseconds 100]\<rparr>"
    by (simp add: init_def Let_def pinMode_def digitalWrite_def delayMicroseconds_def
        CCB_DELAY_def)
  have mode_append: "line_mode p m (xs @ ys) = line_mode p (line_mode p m xs) ys" for p xs ys
    by (induction p m xs rule: line_mode.induct) simp_all
  show ?thesis
    unfolding eq by (auto simp: line_level_append mode_append)
qed

text \<open>
  The example bus, pins 2, 3, 4 and 5.
\<close>

theorem init_idle_bus_witness:
  "distinct [do_pin example_bus, cl_pin example_bus, di_pin example_bus, ce_pin example_bus] \<and>
   line_mode (di_pin example_bus) None (trace (init example_bus quiet_world)) = Some INPUT \<and>
   line_level (di_pin example_bus) LOW (trace (init example_bus quiet_world)) = HIGH \<and>
   line_level (ce_pin example_bus) HIGH (trace (init example_bus quiet_world)) = LOW"
proof -
  have d: "distinct [do_pin example_bus, cl_pin example_bus, di_pin example_bus,
      ce_pin example_bus]"
    by (simp add: example_bus_def SanyoCCB_new_def)
  from init_idle_bus [of example_bus quiet_world LOW None] d
  have "line_mode (di_pin example_bus) None (trace (init example_bus quiet_world)) = Some INPUT"
    and "line_level (di_pin example_bus) LOW (trace (init example_bus quiet_world)) = HIGH"
    by blast+
  moreover from init_idle_bus [of example_bus quiet_world HIGH None]
  have "line_level (ce_pin example_bus) HIGH (trace (init example_bus quiet_world)) = LOW"
    by blast
  ultimately show ?thesis
    using d by blast
qed

text \<open>
  Claim C10 as stated, that every negative \<^verbatim>\<open>dataLength\<close> gives zero iterations of both
  loops, fails for a write with \<^verbatim>\<open>dataLength = -128\<close>: the initial counter
  \<^verbatim>\<open>dataLength - 1\<close> is -129 as an \<^verbatim>\<open>int\<close> and 127 once stored in the \<^verbatim>\<open>int8_t\<close> counter,
  so the loop runs 128 times. With a buffer of 128 bytes \<^verbatim>\<open>0xFF\<close> the write serialises all
  of them, and is not the write of length 0.
\<close>

theorem negative_length_counterexample:
  "sint (- 128 :: int8) < 0 \<and>
   SanyoCCB_write example_bus 5 (replicate 128 0xFF) (- 128) quiet_world =
     Inr (replicate 128 0xFF, quiet_world\<lparr>trace := address_events example_bus 5 @
        enter_events example_bus @ concat (replicate 128 (sendByte_events example_bus 0xFF)) @
        [DigitalWrite (do_pin example_bus) LOW] @ exit_events example_bus\<rparr>) \<and>
   SanyoCCB_write example_bus 5 (replicate 128 0xFF) (- 128) quiet_world \<noteq>
   SanyoCCB_write example_bus 5 (replicate 128 0xFF) 0 quiet_world"
proof -
  have ne: "sendByte_events example_bus 0xFF \<noteq> []"
    by (simp add: sendByte_events_def upt_0_8)
  have big: "SanyoCCB_write example_bus 5 (replicate 128 0xFF) (- 128) quiet_world =
     Inr (replicate 128 0xFF, quiet_world\<lparr>trace := address_events example_bus 5 @
        enter_events example_bus @ concat (replicate 128 (sendByte_events example_bus 0xFF)) @
        [DigitalWrite (do_pin example_bus) LOW] @ exit_events example_bus\<rparr>)"
    using ccb_send_loop_eq [of "- 128" 128 "replicate 128 0xFF" example_bus 5 quiet_world]
    by (simp add: SanyoCCB_write_def quiet_world_def map_replicate)
  have zero: "SanyoCCB_write example_bus 5 (replicate 128 0xFF) 0 quiet_world =
     Inr (replicate 128 0xFF, quiet_world\<lparr>trace := address_events example_bus 5 @
        enter_events example_bus @
        [DigitalWrite (do_pin example_bus) LOW] @ exit_events example_bus\<rparr>)"
    using ccb_send_eq [of 0 0 "replicate 128 0xFF" example_bus 5 quiet_world]
    by (simp add: SanyoCCB_write_def quiet_world_def)
  have "concat (replicate 128 (sendByte_events example_bus 0xFF)) \<noteq> []"
    using ne by simp
  then have "SanyoCCB_write example_bus 5 (replicate 128 0xFF) (- 128) quiet_world \<noteq>
    SanyoCCB_write example_bus 5 (replicate 128 0xFF) 0 quiet_world"
    unfolding big zero by (simp add: quiet_world_def)
  with big show ?thesis
    by simp
qed

text \<open>
  Claim C10, amended. For every negative \<^verbatim>\<open>dataLength\<close>, a read is the read of length 0:
  it returns for every buffer, with the buffer unchanged, having appended the address
  byte and the entry into and exit from the data phase only. For every negative
  \<^verbatim>\<open>dataLength\<close> other than -128, a write is the write of length 0 in the same way, with
  OUT driven low before the exit.
\<close>

theorem negative_length_is_empty_transfer:
  assumes "sint n < 0"
  shows "SanyoCCB_read c a data n s = SanyoCCB_read c a data 0 s \<and>
    SanyoCCB_read c a data n s =
      Inr (data, s\<lparr>trace := trace s @ address_events c a @ enter_events c @ exit_events c\<rparr>) \<and>
    (n \<noteq> - 128 \<longrightarrow>
       SanyoCCB_write c a data n s = SanyoCCB_write c a data 0 s \<and>
       SanyoCCB_write c a data n s =
         Inr (data, s\<lparr>trace := trace s @ address_events c a @ enter_events c @
            [DigitalWrite (do_pin c) LOW] @ exit_events c\<rparr>))"
proof -
  have rd: "SanyoCCB_read c a data n s =
      Inr (data, s\<lparr>trace := trace s @ address_events c a @ enter_events c @ exit_events c\<rparr>)"
    using assms by (simp add: SanyoCCB_read_def ccb_receive_negative)
  have rd0: "SanyoCCB_read c a data 0 s =
      Inr (data, s\<lparr>trace := trace s @ address_events c a @ enter_events c @ exit_events c\<rparr>)"
    by (simp add: SanyoCCB_read_def ccb_receive_negative)
  have wr0: "SanyoCCB_write c a data 0 s =
         Inr (data, s\<lparr>trace := trace s @ address_events c a @ enter_events c @
            [DigitalWrite (do_pin c) LOW] @ exit_events c\<rparr>)"
    using ccb_send_eq [of 0 0 data c a s] by (simp add: SanyoCCB_write_def)
  have wr: "SanyoCCB_write c a data n s =
         Inr (data, s\<lparr>trace := trace s @ address_events c a @ enter_events c @
            [DigitalWrite (do_pin c) LOW] @ exit_events c\<rparr>)" if "n \<noteq> - 128"
  proof -
    from that have "sint n \<noteq> - 128"
      using sint8_eq_minus_128 by blast
    with sint_ge [of n] have "- 128 < sint n"
      by simp
    with assms show ?thesis
      by (simp add: SanyoCCB_write_def ccb_send_negative)
  qed
  from rd rd0 wr0 wr show ?thesis
    by simp
qed

text \<open>
  \<^verbatim>\<open>dataLength = -1\<close> with an empty buffer, on the example bus.
\<close>

theorem negative_length_is_empty_transfer_witness:
  "sint (- 1 :: int8) < 0 \<and> (- 1 :: int8) \<noteq> - 128 \<and>
   SanyoCCB_write example_bus 5 [] (- 1) quiet_world =
     Inr ([], quiet_world\<lparr>trace := trace quiet_world @ address_events example_bus 5 @
        enter_events example_bus @ [DigitalWrite (do_pin example_bus) LOW] @
        exit_events example_bus\<rparr>) \<and>
   SanyoCCB_read example_bus 5 [] (- 1) quiet_world =
     Inr ([], quiet_world\<lparr>trace := trace quiet_world @ address_events example_bus 5 @
        enter_events example_bus @ exit_events example_bus\<rparr>)"
proof -
  have neg: "sint (- 1 :: int8) < 0" and ne: "(- 1 :: int8) \<noteq> - 128"
    by simp_all
  from negative_length_is_empty_transfer [OF neg, of example_bus 5 "[]" quiet_world] neg ne
  show ?thesis
    by blast
qed

end
